theory Spec2Isabelle
  imports Main "HOL-Library.AList"
begin

section \<open>The gallery lightbox of js/gallery-lightbox.js\<close>

text \<open>
  The script is one closure over nine module variables and the document. The model keeps
  the variables and the parts of the document the script reads or writes in one record,
  and every function of the script becomes a function on that record. A function that
  can dereference \<open>null\<close> returns \<open>error + state\<close>.
\<close>

subsection \<open>DOM nodes\<close>

text \<open>
  An element has a tag name (lower case), a class list, its other attributes and its
  child nodes. Nodes are values: \<open>cloneNode(true)\<close> yields the same value, and changing
  the clone cannot change the node it was cloned from.
\<close>

datatype node =
    Element string "string list" "(string \<times> string) list" "node list"
  | Text string

fun childNodes :: "node \<Rightarrow> node list" where
  "childNodes (Element tg cl at cs) = cs"
| "childNodes (Text x) = []"

fun has_tag :: "string \<Rightarrow> node \<Rightarrow> bool" where
  "has_tag t (Element tg cl at cs) = (tg = t)"
| "has_tag t (Text x) = False"

fun has_class :: "string \<Rightarrow> node \<Rightarrow> bool" where
  "has_class c (Element tg cl at cs) = (c \<in> set cl)"
| "has_class c (Text x) = False"

fun getAttribute :: "node \<Rightarrow> string \<Rightarrow> string option" where
  "getAttribute (Element tg cl at cs) k = map_of at k"
| "getAttribute (Text x) k = None"

fun setAttribute :: "string \<Rightarrow> string \<Rightarrow> node \<Rightarrow> node" where
  "setAttribute k v (Element tg cl at cs) = Element tg cl (AList.update k v at) cs"
| "setAttribute k v (Text x) = Text x"

definition classList_add :: "string \<Rightarrow> string list \<Rightarrow> string list" where
  "classList_add c cl = (if c \<in> set cl then cl else cl @ [c])"

definition classList_remove :: "string \<Rightarrow> string list \<Rightarrow> string list" where
  "classList_remove c cl = removeAll c cl"

fun add_class :: "string \<Rightarrow> node \<Rightarrow> node" where
  "add_class c (Element tg cl at cs) = Element tg (classList_add c cl) at cs"
| "add_class c (Text x) = Text x"

definition cloneNode :: "node \<Rightarrow> node" where
  "cloneNode n = n"

text \<open>
  \<open>x.querySelector(t)\<close> for a tag name \<open>t\<close>: the first element with that tag among the
  descendants of \<open>x\<close>, in document order (an element before its children, children before
  later siblings). The argument is the list of children of \<open>x\<close>.
\<close>

fun querySelector :: "string \<Rightarrow> node list \<Rightarrow> node option" where
  "querySelector t [] = None"
| "querySelector t (Text x # ns) = querySelector t ns"
| "querySelector t (Element tg cl at cs # ns) =
     (if tg = t then Some (Element tg cl at cs)
      else case querySelector t cs of
             Some m \<Rightarrow> Some m
           | None \<Rightarrow> querySelector t ns)"

text \<open>
  \<open>x.querySelector(t)?.remove()\<close>: the children of \<open>x\<close> after the first element with tag
  \<open>t\<close> among its descendants has been detached, with its whole subtree; unchanged when
  there is none.
\<close>

fun remove_first :: "string \<Rightarrow> node list \<Rightarrow> node list" where
  "remove_first t [] = []"
| "remove_first t (Text x # ns) = Text x # remove_first t ns"
| "remove_first t (Element tg cl at cs # ns) =
     (if tg = t then ns
      else if querySelector t cs \<noteq> None then Element tg cl at (remove_first t cs) # ns
      else Element tg cl at cs # remove_first t ns)"

text \<open>
  \<open>const e = x.querySelector(t); if (e) { ... e ... }\<close>: the children of \<open>x\<close> after \<open>f\<close>
  has been applied in place to the first element with tag \<open>t\<close> among its descendants.
\<close>

fun update_first :: "string \<Rightarrow> (node \<Rightarrow> node) \<Rightarrow> node list \<Rightarrow> node list" where
  "update_first t f [] = []"
| "update_first t f (Text x # ns) = Text x # update_first t f ns"
| "update_first t f (Element tg cl at cs # ns) =
     (if tg = t then f (Element tg cl at cs) # ns
      else if querySelector t cs \<noteq> None then Element tg cl at (update_first t f cs) # ns
      else Element tg cl at cs # update_first t f ns)"

subsection \<open>State\<close>

text \<open>
  Element references, as far as focus needs them: an HTML element of the page, an element
  of the page that is not an \<open>HTMLElement\<close> (SVG, MathML), and the close button of the
  overlay with a given identity.
\<close>

datatype elem_ref = PageHTMLElement nat | PageOtherElement nat | CloseButtonOf nat

fun is_HTMLElement :: "elem_ref \<Rightarrow> bool" where
  "is_HTMLElement (PageHTMLElement k) = True"
| "is_HTMLElement (PageOtherElement k) = False"
| "is_HTMLElement (CloseButtonOf k) = True"

text \<open>
  \<open>buildOverlay\<close> assigns \<open>overlay\<close>, \<open>dialog\<close>, \<open>figure\<close>, \<open>caption\<close>, \<open>closeButton\<close>,
  \<open>prevButton\<close> and \<open>nextButton\<close> together and nothing else assigns them, so they are
  \<open>null\<close> together: one optional record stands for the seven. Of the subtree it keeps what
  the script changes after building it: \<open>overlay.hidden\<close>, the children of \<open>figure\<close>
  that precede \<open>caption\<close> (nothing is ever inserted after it) and \<open>caption.textContent\<close>.
  \<open>oid\<close> is the identity of the \<open>div\<close> created for the overlay.
\<close>

record overlay_dom =
  oid :: nat
  hidden :: bool
  figure_before_caption :: "node list"
  caption_textContent :: string

record state =
  galleryLinks :: "node list"
  activeIndex :: int
  overlay :: "overlay_dom option"
  restoreFocusTo :: "elem_ref option"
  body_classList :: "string list"
  body_appended :: "nat list"
  keydown_listening :: bool
  activeElement :: "elem_ref option"
  focusable :: "elem_ref list"
  created :: nat

text \<open>
  \<open>body_appended\<close> lists the overlays the script has appended to \<open>document.body\<close>, by
  identity; \<open>created\<close> counts the overlays created so far and is the next fresh identity;
  \<open>keydown_listening\<close> says whether \<open>onKeyDown\<close> is registered on the document
  (\<open>addEventListener\<close> does not register one function twice); \<open>focusable\<close> lists the
  elements that \<open>focus()\<close> can move the focus to at this moment.
\<close>

datatype error = TypeError

record item =
  link :: node
  picture :: "node option"
  alt :: string

definition initial :: "node list \<Rightarrow> string list \<Rightarrow> elem_ref option \<Rightarrow> elem_ref list \<Rightarrow> state" where
  "initial links classes active foc =
     \<lparr>galleryLinks = links, activeIndex = 0, overlay = None, restoreFocusTo = None,
      body_classList = classes, body_appended = [], keydown_listening = False,
      activeElement = active, focusable = foc, created = 0\<rparr>"

subsection \<open>The functions of the script\<close>

definition focus :: "elem_ref \<Rightarrow> state \<Rightarrow> state" where
  "focus e s = (if e \<in> set (focusable s) then s\<lparr>activeElement := Some e\<rparr> else s)"

definition buildOverlay :: "state \<Rightarrow> state" where
  "buildOverlay s =
     s\<lparr>overlay := Some \<lparr>oid = created s, hidden = True,
                         figure_before_caption = [], caption_textContent = []\<rparr>,
       body_appended := body_appended s @ [created s],
       created := Suc (created s)\<rparr>"

text \<open>
  The \<open>%\<close> of JavaScript on integers: the remainder has the sign of the dividend. With a
  zero divisor it is \<open>NaN\<close>, which is \<open>None\<close> below.
\<close>

definition js_rem :: "int \<Rightarrow> int \<Rightarrow> int" where
  "js_rem a n = sgn a * (\<bar>a\<bar> mod \<bar>n\<bar>)"

definition normalize :: "int \<Rightarrow> nat \<Rightarrow> int option" where
  "normalize index n =
     (if n = 0 then None
      else Some (js_rem (js_rem index (int n) + int n) (int n)))"

text \<open>
  \<open>link.querySelector("picture")\<close>, and \<open>img?.getAttribute("alt") || ""\<close> for the first
  \<open>img\<close> of the link: the empty string when there is no \<open>img\<close>, no \<open>alt\<close> attribute
  or an empty one.
\<close>

definition link_picture :: "node \<Rightarrow> node option" where
  "link_picture lnk = querySelector ''picture'' (childNodes lnk)"

definition link_alt :: "node \<Rightarrow> string" where
  "link_alt lnk =
     (case querySelector ''img'' (childNodes lnk) of
        None \<Rightarrow> []
      | Some img \<Rightarrow> (case getAttribute img ''alt'' of None \<Rightarrow> [] | Some v \<Rightarrow> v))"

definition getItem :: "state \<Rightarrow> int \<Rightarrow> item option" where
  "getItem s index =
     (if 0 \<le> index \<and> nat index < length (galleryLinks s) then
        let lnk = galleryLinks s ! nat index
        in Some \<lparr>link = lnk, picture = link_picture lnk, alt = link_alt lnk\<rparr>
      else None)"

definition eager_img :: "node \<Rightarrow> node" where
  "eager_img img =
     setAttribute ''sizes'' ''100vw''
       (setAttribute ''decoding'' ''async'' (setAttribute ''loading'' ''eager'' img))"

fun with_eager_img :: "node \<Rightarrow> node" where
  "with_eager_img (Element tg cl at cs) = Element tg cl at (update_first ''img'' eager_img cs)"
| "with_eager_img (Text x) = Text x"

definition lightbox_media :: "node \<Rightarrow> node" where
  "lightbox_media pic = with_eager_img (add_class ''lightbox-media'' (cloneNode pic))"

definition setOverlayMedia :: "item \<Rightarrow> state \<Rightarrow> error + state" where
  "setOverlayMedia it s =
     (case overlay s of
        None \<Rightarrow> Inl TypeError
      | Some ov \<Rightarrow>
          let ov1 = ov\<lparr>figure_before_caption :=
                         remove_first ''picture'' (figure_before_caption ov)\<rparr>
          in case picture it of
               None \<Rightarrow> Inr (s\<lparr>overlay := Some ov1\<rparr>)
             | Some pic \<Rightarrow>
                 Inr (s\<lparr>overlay := Some (ov1\<lparr>figure_before_caption :=
                                               figure_before_caption ov1 @ [lightbox_media pic],
                                             caption_textContent := alt it\<rparr>)\<rparr>))"

text \<open>
  When \<open>normalized\<close> is \<open>NaN\<close>, \<open>galleryLinks[normalized]\<close> is \<open>undefined\<close> and
  \<open>getItem\<close> returns \<open>null\<close>.
\<close>

definition showAt :: "int \<Rightarrow> state \<Rightarrow> error + state" where
  "showAt index s =
     (case normalize index (length (galleryLinks s)) of
        None \<Rightarrow> Inr s
      | Some normalized \<Rightarrow>
          (case getItem s normalized of
             None \<Rightarrow> Inr s
           | Some it \<Rightarrow> setOverlayMedia it (s\<lparr>activeIndex := normalized\<rparr>)))"

definition showByOffset :: "int \<Rightarrow> state \<Rightarrow> error + state" where
  "showByOffset offset s = showAt (activeIndex s + offset) s"

definition closeLightbox :: "state \<Rightarrow> state" where
  "closeLightbox s =
     (case overlay s of
        None \<Rightarrow> s
      | Some ov \<Rightarrow>
          let s1 = s\<lparr>overlay := Some (ov\<lparr>hidden := True\<rparr>),
                     body_classList := classList_remove ''lightbox-open'' (body_classList s),
                     keydown_listening := False\<rparr>;
              s2 = (case restoreFocusTo s1 of None \<Rightarrow> s1 | Some e \<Rightarrow> focus e s1)
          in s2\<lparr>restoreFocusTo := None\<rparr>)"

definition openLightbox :: "int \<Rightarrow> state \<Rightarrow> error + state" where
  "openLightbox index s =
     (let s1 = (if overlay s = None then buildOverlay s else s);
          s2 = s1\<lparr>restoreFocusTo :=
                    (case activeElement s1 of
                       None \<Rightarrow> None
                     | Some e \<Rightarrow> if is_HTMLElement e then Some e else None),
                  body_classList := classList_add ''lightbox-open'' (body_classList s1)\<rparr>
      in case overlay s2 of
           None \<Rightarrow> Inl TypeError
         | Some ov \<Rightarrow>
             (case showAt index (s2\<lparr>overlay := Some (ov\<lparr>hidden := False\<rparr>)\<rparr>) of
                Inl e \<Rightarrow> Inl e
              | Inr s3 \<Rightarrow>
                  (case overlay s3 of
                     None \<Rightarrow> Inr (s3\<lparr>keydown_listening := True\<rparr>)
                   | Some ov3 \<Rightarrow>
                       Inr (focus (CloseButtonOf (oid ov3)) (s3\<lparr>keydown_listening := True\<rparr>)))))"

subsection \<open>Events and listeners\<close>

record ui_event =
  defaultPrevented :: bool

record mouse_event = ui_event +
  button :: int
  metaKey :: bool
  ctrlKey :: bool
  shiftKey :: bool
  altKey :: bool

record keyboard_event = ui_event +
  key :: string

text \<open>
  What the listener of the overlay reads of a click: whether \<open>event.target\<close> is an
  element, and whether \<open>closest\<close> finds the media node, a navigation button or the
  close button above it.
\<close>

record click_target =
  target_is_Element :: bool
  closest_media :: bool
  closest_prev_next :: bool
  closest_close :: bool

definition preventDefault :: "('a ui_event_scheme) \<Rightarrow> ('a ui_event_scheme)" where
  "preventDefault ev = ev\<lparr>defaultPrevented := True\<rparr>"

definition onKeyDown :: "keyboard_event \<Rightarrow> state \<Rightarrow> error + (keyboard_event \<times> state)" where
  "onKeyDown ev s =
     (if (case overlay s of None \<Rightarrow> False | Some ov \<Rightarrow> hidden ov) then Inr (ev, s)
      else if key ev = ''Escape'' then Inr (preventDefault ev, closeLightbox s)
      else if key ev = ''ArrowLeft'' then
        (case showByOffset (- 1) s of Inl e \<Rightarrow> Inl e | Inr s1 \<Rightarrow> Inr (preventDefault ev, s1))
      else if key ev = ''ArrowRight'' then
        (case showByOffset 1 s of Inl e \<Rightarrow> Inl e | Inr s1 \<Rightarrow> Inr (preventDefault ev, s1))
      else Inr (ev, s))"

definition overlay_click :: "click_target \<Rightarrow> state \<Rightarrow> state" where
  "overlay_click tg s =
     (if \<not> target_is_Element tg then s
      else if closest_media tg then s
      else if closest_prev_next tg then s
      else if closest_close tg then s
      else closeLightbox s)"

text \<open>The listener that \<open>galleryLinks.forEach\<close> registers on the link at \<open>index\<close>.\<close>

definition link_click :: "nat \<Rightarrow> mouse_event \<Rightarrow> state \<Rightarrow> error + (mouse_event \<times> state)" where
  "link_click index ev s =
     (if defaultPrevented ev \<or> button ev \<noteq> 0 \<or> metaKey ev \<or> ctrlKey ev \<or>
         shiftKey ev \<or> altKey ev
      then Inr (ev, s)
      else case openLightbox (int index) s of
             Inl e \<Rightarrow> Inl e
           | Inr s1 \<Rightarrow> Inr (preventDefault ev, s1))"

definition link_listeners ::
  "state \<Rightarrow> (mouse_event \<Rightarrow> state \<Rightarrow> error + (mouse_event \<times> state)) list" where
  "link_listeners s =
     (if length (galleryLinks s) = 0 then []
      else map link_click [0..<length (galleryLinks s)])"

subsection \<open>Operations\<close>

text \<open>
  Every listener above does nothing or calls one of \<open>openLightbox\<close>, \<open>showByOffset\<close>
  and \<open>closeLightbox\<close>; \<open>showAt\<close> is called by \<open>openLightbox\<close> and \<open>showByOffset\<close>.
  A history of the widget is a list of these calls, interleaved with \<open>PageFocus\<close>, the
  page itself moving the focus or changing which elements can take it.
\<close>

datatype operation =
    Activate int
  | DisplayItem int
  | Navigate int
  | Deactivate
  | PageFocus "elem_ref option" "elem_ref list"

fun perform :: "operation \<Rightarrow> state \<Rightarrow> error + state" where
  "perform (Activate index) s = openLightbox index s"
| "perform (DisplayItem index) s = showAt index s"
| "perform (Navigate offset) s = showByOffset offset s"
| "perform Deactivate s = Inr (closeLightbox s)"
| "perform (PageFocus active foc) s = Inr (s\<lparr>activeElement := active, focusable := foc\<rparr>)"

fun perform_all :: "operation list \<Rightarrow> state \<Rightarrow> error + state" where
  "perform_all [] s = Inr s"
| "perform_all (op # ops) s =
     (case perform op s of Inl err \<Rightarrow> Inl err | Inr s1 \<Rightarrow> perform_all ops s1)"

fun is_Activate :: "operation \<Rightarrow> bool" where
  "is_Activate (Activate index) = True"
| "is_Activate other = False"

subsection \<open>The invariant of the widget\<close>

text \<open>
  The figure holds nothing before the caption, or one \<open>picture\<close> element that carries
  the class \<open>lightbox-media\<close>.
\<close>

definition figure_ok :: "node list \<Rightarrow> bool" where
  "figure_ok ns =
     (case ns of
        [] \<Rightarrow> True
      | [m] \<Rightarrow> has_tag ''picture'' m \<and> has_class ''lightbox-media'' m
      | _ \<Rightarrow> False)"

definition inv :: "state \<Rightarrow> bool" where
  "inv s =
     ((galleryLinks s \<noteq> [] \<longrightarrow>
         0 \<le> activeIndex s \<and> activeIndex s < int (length (galleryLinks s))) \<and>
      (case overlay s of
         None \<Rightarrow>
           body_appended s = [] \<and> created s = 0 \<and> \<not> keydown_listening s \<and>
           restoreFocusTo s = None
       | Some ov \<Rightarrow>
           oid ov = 0 \<and> body_appended s = [0] \<and> created s = 1 \<and>
           figure_ok (figure_before_caption ov) \<and>
           (hidden ov \<longrightarrow>
              ''lightbox-open'' \<notin> set (body_classList s) \<and> \<not> keydown_listening s \<and>
              restoreFocusTo s = None)))"

text \<open>The state in which \<open>openLightbox\<close> calls \<open>showAt\<close>.\<close>

definition before_showAt :: "state \<Rightarrow> state" where
  "before_showAt s =
     (let s1 = (if overlay s = None then buildOverlay s else s)
      in s1\<lparr>restoreFocusTo :=
               (case activeElement s1 of
                  None \<Rightarrow> None
                | Some e \<Rightarrow> if is_HTMLElement e then Some e else None),
             body_classList := classList_add ''lightbox-open'' (body_classList s1),
             overlay := map_option (\<lambda>ov. ov\<lparr>hidden := False\<rparr>) (overlay s1)\<rparr>)"

text \<open>
  The operations that leave \<open>restoreFocusTo\<close> alone: every one but \<open>Activate\<close>, which
  records, and \<open>Deactivate\<close>, which clears.
\<close>

fun keeps_focus_record :: "operation \<Rightarrow> bool" where
  "keeps_focus_record (Activate index) = False"
| "keeps_focus_record Deactivate = False"
| "keeps_focus_record other = True"

subsection \<open>Observing a subtree\<close>

text \<open>
  Two observations that together determine a list of nodes, used to say what a clone is:
  its shape (the tree with every element stripped of tag, classes and attributes, text
  kept) and the tags, classes and attributes of its elements in document order.
  \<open>change_first P h\<close> replaces the first list element that satisfies \<open>P\<close>, if any.
\<close>

datatype shape = ElementShape "shape list" | TextShape string

fun skeleton :: "node \<Rightarrow> shape" where
  "skeleton (Element tg cl at cs) = ElementShape (map skeleton cs)"
| "skeleton (Text x) = TextShape x"

fun labels :: "node \<Rightarrow> (string \<times> string list \<times> (string \<times> string) list) list" where
  "labels (Element tg cl at cs) = (tg, cl, at) # concat (map labels cs)"
| "labels (Text x) = []"

fun change_first :: "('a \<Rightarrow> bool) \<Rightarrow> ('a \<Rightarrow> 'a) \<Rightarrow> 'a list \<Rightarrow> 'a list" where
  "change_first P h [] = []"
| "change_first P h (x # xs) = (if P x then h x # xs else x # change_first P h xs)"

definition eager_label ::
  "string \<times> string list \<times> (string \<times> string) list \<Rightarrow>
   string \<times> string list \<times> (string \<times> string) list" where
  "eager_label l =
     (fst l, fst (snd l),
      AList.update ''sizes'' ''100vw''
        (AList.update ''decoding'' ''async''
           (AList.update ''loading'' ''eager'' (snd (snd l)))))"

subsection \<open>An example page\<close>

text \<open>
  A thumbnail as the input markup contract has it, a thumbnail with neither \<open>picture\<close>
  nor \<open>alt\<close>, the gallery \<open>A\<close>, \<open>B\<close>, \<open>C\<close>, a gallery whose second thumbnail is bare, a
  page whose focused element is an HTML element and a page whose focused element is not
  one. \<open>page_after\<close> is the page after a history that raised no error.
\<close>

definition thumbnail_picture :: "string \<Rightarrow> node" where
  "thumbnail_picture name =
     Element ''picture'' [] []
       [Element ''source'' [] [(''srcset'', name)] [],
        Element ''img'' [] [(''src'', name), (''alt'', name)] []]"

definition thumbnail :: "string \<Rightarrow> node" where
  "thumbnail name =
     Element ''a'' [''gallery-item''] [(''href'', name)] [thumbnail_picture name]"

definition bare_thumbnail :: "string \<Rightarrow> node" where
  "bare_thumbnail name =
     Element ''a'' [''gallery-item''] [(''href'', name)]
       [Element ''img'' [] [(''src'', name)] []]"

definition gallery_ABC :: "node list" where
  "gallery_ABC = [thumbnail ''A'', thumbnail ''B'', thumbnail ''C'']"

definition gallery_bare :: "node list" where
  "gallery_bare = [thumbnail ''A'', bare_thumbnail ''B'']"

definition page :: "node list \<Rightarrow> state" where
  "page links = initial links [] (Some (PageHTMLElement 0)) [PageHTMLElement 0, CloseButtonOf 0]"

definition svg_page :: "node list \<Rightarrow> state" where
  "svg_page links =
     initial links [] (Some (PageOtherElement 0)) [PageOtherElement 0, CloseButtonOf 0]"

definition page_after :: "operation list \<Rightarrow> node list \<Rightarrow> state" where
  "page_after ops links =
     (case perform_all ops (page links) of Inl err \<Rightarrow> page links | Inr s \<Rightarrow> s)"

definition plain_click :: mouse_event where
  "plain_click =
     \<lparr>defaultPrevented = False, button = 0, metaKey = False, ctrlKey = False,
      shiftKey = False, altKey = False\<rparr>"

definition ctrl_click :: mouse_event where
  "ctrl_click = plain_click\<lparr>ctrlKey := True\<rparr>"

section \<open>Properties\<close>

subsection \<open>Index arithmetic\<close>

lemma js_rem_nonneg: "0 \<le> a \<Longrightarrow> 0 < n \<Longrightarrow> js_rem a n = a mod n"
  by (simp add: js_rem_def sgn_if)

lemma js_rem_neg: "a < 0 \<Longrightarrow> 0 < n \<Longrightarrow> js_rem a n = - ((- a) mod n)"
  by (simp add: js_rem_def sgn_if)

lemma js_rem_lower: "0 < n \<Longrightarrow> - n < js_rem a n"
proof (cases "0 \<le> a")
  case True
  assume n: "0 < n"
  have "js_rem a n = a mod n" using True n by (rule js_rem_nonneg)
  moreover have "0 \<le> a mod n" using n by simp
  ultimately show ?thesis using n by linarith
next
  case False
  assume n: "0 < n"
  have "js_rem a n = - ((- a) mod n)" using False n by (simp add: js_rem_neg)
  moreover have "(- a) mod n < n" using n by simp
  ultimately show ?thesis by linarith
qed

lemma js_rem_mod: "0 < n \<Longrightarrow> js_rem a n mod n = a mod n"
proof (cases "0 \<le> a")
  case True
  assume "0 < n"
  then show ?thesis using True by (simp add: js_rem_nonneg)
next
  case False
  assume n: "0 < n"
  have "(- ((- a) mod n)) mod n = (- (- a)) mod n" by (rule mod_minus_eq)
  then show ?thesis using False n by (simp add: js_rem_neg)
qed

lemma normalize_mod: "0 < n \<Longrightarrow> normalize i n = Some (i mod int n)"
proof -
  assume n: "0 < n"
  let ?m = "int n"
  have m: "0 < ?m" using n by simp
  have "0 \<le> js_rem i ?m + ?m" using js_rem_lower [OF m, of i] by simp
  then have "js_rem (js_rem i ?m + ?m) ?m = (js_rem i ?m + ?m) mod ?m"
    using m by (rule js_rem_nonneg)
  also have "\<dots> = js_rem i ?m mod ?m" by simp
  also have "\<dots> = i mod ?m" using m by (rule js_rem_mod)
  finally show ?thesis using n by (simp add: normalize_def)
qed

subsection \<open>Nodes\<close>

lemma querySelector_has_tag: "querySelector t ns = Some m \<Longrightarrow> has_tag t m"
  by (induction t ns rule: querySelector.induct) (auto split: if_splits option.splits)

lemma remove_first_single: "has_tag t m \<Longrightarrow> remove_first t [m] = []"
  by (cases m) auto

lemma lightbox_media_tag: "has_tag t pic \<Longrightarrow> has_tag t (lightbox_media pic)"
  by (cases pic) (auto simp: lightbox_media_def cloneNode_def)

lemma lightbox_media_class: "has_tag t pic \<Longrightarrow> has_class ''lightbox-media'' (lightbox_media pic)"
  by (cases pic) (auto simp: lightbox_media_def cloneNode_def classList_add_def)

lemma link_picture_tag: "link_picture lnk = Some pic \<Longrightarrow> has_tag ''picture'' pic"
  unfolding link_picture_def by (rule querySelector_has_tag)

lemma figure_ok_remove: "figure_ok ns \<Longrightarrow> remove_first ''picture'' ns = []"
  by (auto simp: figure_ok_def remove_first_single split: list.splits)

lemma figure_ok_media: "link_picture lnk = Some pic \<Longrightarrow> figure_ok [lightbox_media pic]"
  by (simp add: figure_ok_def link_picture_tag lightbox_media_tag lightbox_media_class [of "''picture''"])

subsection \<open>\<open>showAt\<close>\<close>

lemma getItem_in_range:
  "0 \<le> k \<Longrightarrow> k < int (length (galleryLinks s)) \<Longrightarrow>
   getItem s k = Some \<lparr>link = galleryLinks s ! nat k, picture = link_picture (galleryLinks s ! nat k),
                         alt = link_alt (galleryLinks s ! nat k)\<rparr>"
  by (simp add: getItem_def Let_def)

lemma setOverlayMedia_None: "overlay s = None \<Longrightarrow> setOverlayMedia it s = Inl TypeError"
  by (simp add: setOverlayMedia_def)

lemma setOverlayMedia_Some:
  "overlay s = Some ov \<Longrightarrow>
   setOverlayMedia it s =
     Inr (s\<lparr>overlay := Some
           (case picture it of
              None \<Rightarrow> ov\<lparr>figure_before_caption := remove_first ''picture'' (figure_before_caption ov)\<rparr>
            | Some pic \<Rightarrow>
                ov\<lparr>figure_before_caption :=
                     remove_first ''picture'' (figure_before_caption ov) @ [lightbox_media pic],
                   caption_textContent := alt it\<rparr>)\<rparr>)"
  by (simp add: setOverlayMedia_def Let_def split: option.splits)

lemma showAt_nonempty:
  assumes "galleryLinks s \<noteq> []"
  shows "showAt i s =
     setOverlayMedia
       \<lparr>link = galleryLinks s ! nat (i mod int (length (galleryLinks s))),
        picture = link_picture (galleryLinks s ! nat (i mod int (length (galleryLinks s)))),
        alt = link_alt (galleryLinks s ! nat (i mod int (length (galleryLinks s))))\<rparr>
       (s\<lparr>activeIndex := i mod int (length (galleryLinks s))\<rparr>)"
proof -
  let ?n = "length (galleryLinks s)"
  have n: "0 < ?n" using assms by simp
  have lo: "0 \<le> i mod int ?n" and hi: "i mod int ?n < int ?n" using n by simp_all
  show ?thesis
    by (simp add: showAt_def normalize_mod [OF n] getItem_in_range [OF lo hi])
qed

lemma showAt_empty: "galleryLinks s = [] \<Longrightarrow> showAt i s = Inr s"
  by (simp add: showAt_def normalize_def)

lemma showAt_None: "overlay s = None \<Longrightarrow> galleryLinks s \<noteq> [] \<Longrightarrow> showAt i s = Inl TypeError"
  by (simp add: showAt_nonempty setOverlayMedia_None)

lemma showAt_picture:
  assumes "overlay s = Some ov" and "galleryLinks s \<noteq> []"
    and "link_picture (galleryLinks s ! nat (i mod int (length (galleryLinks s)))) = Some pic"
  shows "showAt i s =
     Inr (s\<lparr>activeIndex := i mod int (length (galleryLinks s)),
            overlay := Some (ov\<lparr>figure_before_caption :=
                                   remove_first ''picture'' (figure_before_caption ov) @
                                   [lightbox_media pic],
                                 caption_textContent :=
                                   link_alt (galleryLinks s ! nat (i mod int (length (galleryLinks s))))\<rparr>)\<rparr>)"
  using assms by (simp add: showAt_nonempty setOverlayMedia_Some)

lemma showAt_no_picture:
  assumes "overlay s = Some ov" and "galleryLinks s \<noteq> []"
    and "link_picture (galleryLinks s ! nat (i mod int (length (galleryLinks s)))) = None"
  shows "showAt i s =
     Inr (s\<lparr>activeIndex := i mod int (length (galleryLinks s)),
            overlay := Some (ov\<lparr>figure_before_caption :=
                                   remove_first ''picture'' (figure_before_caption ov)\<rparr>)\<rparr>)"
  using assms by (simp add: showAt_nonempty setOverlayMedia_Some)

lemma showAt_Some:
  assumes "overlay s = Some ov"
  shows "\<exists>ov'. showAt i s =
            Inr (s\<lparr>activeIndex := (if galleryLinks s = [] then activeIndex s
                                     else i mod int (length (galleryLinks s))),
                   overlay := Some ov'\<rparr>) \<and>
          oid ov' = oid ov \<and> hidden ov' = hidden ov \<and>
          (figure_ok (figure_before_caption ov) \<longrightarrow> figure_ok (figure_before_caption ov'))"
proof (cases "galleryLinks s = []")
  case True
  then have "showAt i s = Inr (s\<lparr>activeIndex := activeIndex s, overlay := Some ov\<rparr>)"
    using assms by (simp add: showAt_empty)
  then show ?thesis using True by auto
next
  case False
  let ?lnk = "galleryLinks s ! nat (i mod int (length (galleryLinks s)))"
  show ?thesis
  proof (cases "link_picture ?lnk")
    case None
    let ?ov = "ov\<lparr>figure_before_caption := remove_first ''picture'' (figure_before_caption ov)\<rparr>"
    have "figure_ok (figure_before_caption ov) \<longrightarrow> figure_ok (figure_before_caption ?ov)"
      by (simp add: figure_ok_remove figure_ok_def)
    then show ?thesis using False showAt_no_picture [OF assms False None]
      by (intro exI [of _ ?ov]) simp
  next
    case (Some pic)
    let ?ov = "ov\<lparr>figure_before_caption :=
                     remove_first ''picture'' (figure_before_caption ov) @ [lightbox_media pic],
                   caption_textContent := link_alt ?lnk\<rparr>"
    have "figure_ok (figure_before_caption ov) \<longrightarrow> figure_ok (figure_before_caption ?ov)"
      using figure_ok_media [OF Some] by (simp add: figure_ok_remove)
    then show ?thesis using False showAt_picture [OF assms False Some]
      by (intro exI [of _ ?ov]) simp
  qed
qed

lemma showAt_frame:
  assumes "showAt i s = Inr s'"
  shows "\<exists>k ov. s' = s\<lparr>activeIndex := k, overlay := ov\<rparr>"
proof (cases "overlay s")
  case None
  then have "s' = s" using assms
    by (cases "galleryLinks s = []") (simp_all add: showAt_empty showAt_None)
  then have "s' = s\<lparr>activeIndex := activeIndex s, overlay := overlay s\<rparr>" by simp
  then show ?thesis by blast
next
  case (Some ov)
  then show ?thesis using showAt_Some [OF Some, of i] assms by auto
qed

lemma showAt_inv:
  assumes "inv s" and "showAt i s = Inr s'"
  shows "inv s'"
proof (cases "overlay s")
  case None
  then have "s' = s" using assms(2)
    by (cases "galleryLinks s = []") (simp_all add: showAt_empty showAt_None)
  then show ?thesis using assms(1) by simp
next
  case (Some ov)
  from showAt_Some [OF Some, of i] obtain ov' where
    eq: "showAt i s = Inr (s\<lparr>activeIndex := (if galleryLinks s = [] then activeIndex s
                                     else i mod int (length (galleryLinks s))),
                   overlay := Some ov'\<rparr>)"
    and o: "oid ov' = oid ov" "hidden ov' = hidden ov"
      "figure_ok (figure_before_caption ov) \<longrightarrow> figure_ok (figure_before_caption ov')"
    by blast
  from eq assms(2) have s': "s' = s\<lparr>activeIndex := (if galleryLinks s = [] then activeIndex s
                                     else i mod int (length (galleryLinks s))),
                   overlay := Some ov'\<rparr>" by simp
  show ?thesis using assms(1) Some o unfolding s' inv_def by (simp split: option.splits)
qed

subsection \<open>The invariant holds in every reachable state\<close>

lemma focus_inv: "inv s \<Longrightarrow> inv (focus e s)"
  by (simp add: focus_def inv_def split: option.splits)

lemma closeLightbox_inv: "inv s \<Longrightarrow> inv (closeLightbox s)"
  by (cases "overlay s"; cases "restoreFocusTo s")
     (auto simp: closeLightbox_def inv_def focus_def classList_remove_def Let_def)

lemma initial_inv: "inv (initial links classes active foc)"
  by (simp add: initial_def inv_def)

lemma openLightbox_unfold:
  "openLightbox i s =
     (case showAt i (before_showAt s) of
        Inl e \<Rightarrow> Inl e
      | Inr s3 \<Rightarrow>
          (case overlay s3 of
             None \<Rightarrow> Inr (s3\<lparr>keydown_listening := True\<rparr>)
           | Some ov3 \<Rightarrow> Inr (focus (CloseButtonOf (oid ov3)) (s3\<lparr>keydown_listening := True\<rparr>))))"
  by (cases "overlay s") (simp_all add: openLightbox_def before_showAt_def buildOverlay_def Let_def)

lemma before_showAt_overlay:
  "\<exists>ov. overlay (before_showAt s) = Some ov \<and> \<not> hidden ov \<and>
        figure_before_caption ov =
          (case overlay s of None \<Rightarrow> [] | Some ov0 \<Rightarrow> figure_before_caption ov0)"
  by (cases "overlay s") (simp_all add: before_showAt_def buildOverlay_def Let_def)

lemma before_showAt_inv: "inv s \<Longrightarrow> inv (before_showAt s)"
  by (cases "overlay s")
     (simp_all add: before_showAt_def buildOverlay_def Let_def inv_def figure_ok_def)

lemma before_showAt_fields:
  "galleryLinks (before_showAt s) = galleryLinks s"
  "activeElement (before_showAt s) = activeElement s"
  "focusable (before_showAt s) = focusable s"
  "restoreFocusTo (before_showAt s) =
     (case activeElement s of None \<Rightarrow> None | Some e \<Rightarrow> if is_HTMLElement e then Some e else None)"
  by (simp_all add: before_showAt_def buildOverlay_def Let_def)

lemma openLightbox_result:
  "\<exists>s3 ov3. showAt i (before_showAt s) = Inr s3 \<and> overlay s3 = Some ov3 \<and> \<not> hidden ov3 \<and>
     openLightbox i s = Inr (focus (CloseButtonOf (oid ov3)) (s3\<lparr>keydown_listening := True\<rparr>))"
proof -
  obtain ov where ov: "overlay (before_showAt s) = Some ov" "\<not> hidden ov"
    using before_showAt_overlay [of s] by blast
  obtain ov' s3 where s3: "showAt i (before_showAt s) = Inr s3" "overlay s3 = Some ov'"
    "hidden ov' = hidden ov"
    using showAt_Some [OF ov(1), of i] by fastforce
  then show ?thesis using ov(2) by (simp add: openLightbox_unfold)
qed

lemma openLightbox_inv:
  assumes "inv s"
  shows "\<exists>s' ov. openLightbox i s = Inr s' \<and> inv s' \<and> overlay s' = Some ov \<and> \<not> hidden ov"
proof -
  obtain s3 ov3 where s3: "showAt i (before_showAt s) = Inr s3" "overlay s3 = Some ov3"
    "\<not> hidden ov3"
    and eq: "openLightbox i s = Inr (focus (CloseButtonOf (oid ov3)) (s3\<lparr>keydown_listening := True\<rparr>))"
    using openLightbox_result [of i s] by blast
  have i3: "inv s3" using before_showAt_inv [OF assms] s3(1) by (rule showAt_inv)
  let ?s' = "focus (CloseButtonOf (oid ov3)) (s3\<lparr>keydown_listening := True\<rparr>)"
  have "inv (s3\<lparr>keydown_listening := True\<rparr>)"
    using i3 s3(2,3) by (simp add: inv_def)
  then have "inv ?s'" by (rule focus_inv)
  moreover have "overlay ?s' = Some ov3" using s3(2) by (simp add: focus_def)
  ultimately show ?thesis using eq s3(3) by blast
qed

lemma perform_inv: "inv s \<Longrightarrow> perform op s = Inr s' \<Longrightarrow> inv s'"
proof (cases op)
  case (Activate i)
  assume "inv s" "perform op s = Inr s'"
  then show ?thesis using openLightbox_inv [of s i] Activate by auto
next
  case (DisplayItem i)
  assume "inv s" "perform op s = Inr s'"
  then show ?thesis using DisplayItem by (auto intro: showAt_inv)
next
  case (Navigate k)
  assume "inv s" "perform op s = Inr s'"
  then show ?thesis using Navigate by (auto simp: showByOffset_def intro: showAt_inv)
next
  case Deactivate
  assume "inv s" "perform op s = Inr s'"
  then show ?thesis using Deactivate by (auto intro: closeLightbox_inv)
next
  case (PageFocus a f)
  assume "inv s" "perform op s = Inr s'"
  then show ?thesis using PageFocus by (auto simp: inv_def split: option.splits)
qed

lemma perform_all_inv: "inv s \<Longrightarrow> perform_all ops s = Inr s' \<Longrightarrow> inv s'"
proof (induction ops arbitrary: s)
  case Nil
  then show ?case by simp
next
  case (Cons op ops)
  then show ?case by (auto split: sum.splits dest: perform_inv)
qed

lemma reachable_inv: "perform_all ops (initial links classes active foc) = Inr s \<Longrightarrow> inv s"
  using initial_inv by (rule perform_all_inv)

lemma closeLightbox_links: "galleryLinks (closeLightbox s) = galleryLinks s"
  by (simp add: closeLightbox_def focus_def Let_def split: option.splits)

lemma showAt_links: "showAt i s = Inr s' \<Longrightarrow> galleryLinks s' = galleryLinks s"
  using showAt_frame [of i s s'] by auto

lemma openLightbox_links: "openLightbox i s = Inr s' \<Longrightarrow> galleryLinks s' = galleryLinks s"
  using openLightbox_result [of i s]
  by (auto simp: focus_def before_showAt_fields dest!: showAt_links)

lemma perform_links: "perform op s = Inr s' \<Longrightarrow> galleryLinks s' = galleryLinks s"
  by (cases op) (auto simp: showByOffset_def closeLightbox_links dest: showAt_links openLightbox_links)

lemma perform_all_links: "perform_all ops s = Inr s' \<Longrightarrow> galleryLinks s' = galleryLinks s"
proof (induction ops arbitrary: s)
  case Nil
  then show ?case by simp
next
  case (Cons op ops)
  then show ?case by (auto split: sum.splits dest: perform_links)
qed

lemma reachable_links:
  "perform_all ops (initial links classes active foc) = Inr s \<Longrightarrow> galleryLinks s = links"
  by (drule perform_all_links) (simp add: initial_def)

subsection \<open>Activation\<close>

lemma not_isl_Inr: "\<not> isl x \<Longrightarrow> \<exists>y. x = Inr y"
  by (cases x) auto

lemma openLightbox_shows:
  assumes "inv s" and "galleryLinks s \<noteq> []"
    and "link_picture (galleryLinks s ! nat (i mod int (length (galleryLinks s)))) = Some pic"
  shows "\<exists>s' ov'. openLightbox i s = Inr s' \<and> overlay s' = Some ov' \<and> \<not> hidden ov' \<and>
           figure_before_caption ov' = [lightbox_media pic] \<and>
           caption_textContent ov' =
             link_alt (galleryLinks s ! nat (i mod int (length (galleryLinks s)))) \<and>
           activeIndex s' = i mod int (length (galleryLinks s))"
proof -
  let ?b = "before_showAt s"
  obtain ov where ov: "overlay ?b = Some ov" "\<not> hidden ov"
    using before_showAt_overlay [of s] by blast
  have "inv ?b" using assms(1) by (rule before_showAt_inv)
  then have rm: "remove_first ''picture'' (figure_before_caption ov) = []"
    using ov(1) by (simp add: inv_def figure_ok_remove)
  have ne: "galleryLinks ?b \<noteq> []" using assms(2) by (simp add: before_showAt_fields)
  have pic: "link_picture (galleryLinks ?b ! nat (i mod int (length (galleryLinks ?b)))) = Some pic"
    using assms(3) by (simp add: before_showAt_fields)
  note sh = showAt_picture [OF ov(1) ne pic, unfolded rm]
  show ?thesis
    unfolding openLightbox_unfold sh using ov(2)
    by (simp add: focus_def before_showAt_fields)
qed

subsection \<open>When the overlay exists\<close>

lemma closeLightbox_overlay_None: "overlay (closeLightbox s) = None \<longleftrightarrow> overlay s = None"
  by (simp add: closeLightbox_def focus_def Let_def split: option.splits)

lemma showAt_overlay_None: "showAt i s = Inr s' \<Longrightarrow> overlay s' = None \<longleftrightarrow> overlay s = None"
proof (cases "overlay s")
  case None
  assume "showAt i s = Inr s'"
  then have "s' = s" using None
    by (cases "galleryLinks s = []") (simp_all add: showAt_empty showAt_None)
  then show ?thesis by simp
next
  case (Some ov)
  assume "showAt i s = Inr s'"
  then show ?thesis using showAt_Some [OF Some, of i] Some by auto
qed

lemma perform_overlay_None:
  assumes "inv s" and "perform op s = Inr s'"
  shows "overlay s' = None \<longleftrightarrow> overlay s = None \<and> \<not> is_Activate op"
proof (cases op)
  case (Activate i)
  then show ?thesis using openLightbox_inv [OF assms(1), of i] assms(2) by auto
next
  case (DisplayItem i)
  then show ?thesis using assms(2) by (auto dest: showAt_overlay_None)
next
  case (Navigate k)
  then show ?thesis using assms(2) by (auto simp: showByOffset_def dest: showAt_overlay_None)
next
  case Deactivate
  then show ?thesis using assms(2) by (auto simp: closeLightbox_overlay_None)
next
  case (PageFocus a f)
  then show ?thesis using assms(2) by auto
qed

lemma perform_all_overlay_None:
  "inv s \<Longrightarrow> perform_all ops s = Inr s' \<Longrightarrow>
   overlay s' = None \<longleftrightarrow> overlay s = None \<and> \<not> list_ex is_Activate ops"
proof (induction ops arbitrary: s)
  case Nil
  then show ?case by simp
next
  case (Cons op ops)
  from Cons.prems(2) obtain s1 where s1: "perform op s = Inr s1" "perform_all ops s1 = Inr s'"
    by (auto split: sum.splits)
  have "inv s1" using Cons.prems(1) s1(1) by (rule perform_inv)
  then have "overlay s' = None \<longleftrightarrow> overlay s1 = None \<and> \<not> list_ex is_Activate ops"
    using s1(2) by (rule Cons.IH)
  then show ?case using perform_overlay_None [OF Cons.prems(1) s1(1)] by auto
qed

subsection \<open>The focus record\<close>

lemma showAt_focus_fields:
  "showAt i s = Inr s' \<Longrightarrow>
   restoreFocusTo s' = restoreFocusTo s \<and> (overlay s' = None \<longleftrightarrow> overlay s = None)"
  using showAt_frame [of i s s'] showAt_overlay_None [of i s s'] by auto

lemma perform_keeps_record:
  "keeps_focus_record op \<Longrightarrow> perform op s = Inr s' \<Longrightarrow>
   restoreFocusTo s' = restoreFocusTo s \<and> (overlay s' = None \<longleftrightarrow> overlay s = None)"
  by (cases op) (auto simp: showByOffset_def dest: showAt_focus_fields)

lemma perform_all_keeps_record:
  "list_all keeps_focus_record ops \<Longrightarrow> perform_all ops s = Inr s' \<Longrightarrow>
   restoreFocusTo s' = restoreFocusTo s \<and> (overlay s' = None \<longleftrightarrow> overlay s = None)"
proof (induction ops arbitrary: s)
  case Nil
  then show ?case by simp
next
  case (Cons op ops)
  from Cons.prems(2) obtain s1 where s1: "perform op s = Inr s1" "perform_all ops s1 = Inr s'"
    by (auto split: sum.splits)
  show ?case using Cons.IH [OF _ s1(2)] perform_keeps_record [OF _ s1(1)] Cons.prems(1) by simp
qed

lemma openLightbox_records:
  assumes "openLightbox i s = Inr s1"
  shows "restoreFocusTo s1 =
           (case activeElement s of
              None \<Rightarrow> None
            | Some e \<Rightarrow> if is_HTMLElement e then Some e else None) \<and>
         overlay s1 \<noteq> None"
proof -
  obtain s3 ov3 where s3: "showAt i (before_showAt s) = Inr s3" "overlay s3 = Some ov3"
    and eq: "openLightbox i s = Inr (focus (CloseButtonOf (oid ov3)) (s3\<lparr>keydown_listening := True\<rparr>))"
    using openLightbox_result [of i s] by blast
  have "restoreFocusTo s3 = restoreFocusTo (before_showAt s)"
    using showAt_focus_fields [OF s3(1)] by simp
  then show ?thesis using assms eq s3(2) by (auto simp: focus_def before_showAt_fields)
qed

lemma closeLightbox_focus:
  assumes "overlay s \<noteq> None"
  shows "restoreFocusTo (closeLightbox s) = None \<and>
         activeElement (closeLightbox s) =
           (case restoreFocusTo s of
              None \<Rightarrow> activeElement s
            | Some e \<Rightarrow> if e \<in> set (focusable s) then Some e else activeElement s)"
  using assms by (auto simp: closeLightbox_def focus_def Let_def split: option.splits)

subsection \<open>The example page\<close>

lemma page_after_reached:
  "\<not> isl (perform_all ops (page links)) \<Longrightarrow>
   perform_all ops (page links) = Inr (page_after ops links)"
  by (cases "perform_all ops (page links)") (simp_all add: page_after_def)

subsection \<open>What the prepared clone is\<close>

lemma change_first_append:
  "change_first P h (xs @ ys) =
     (if \<exists>x\<in>set xs. P x then change_first P h xs @ ys else xs @ change_first P h ys)"
  by (induction xs) auto

lemma querySelector_None_labels:
  "querySelector t ns = None \<longleftrightarrow> (\<forall>l\<in>set (concat (map labels ns)). fst l \<noteq> t)"
proof (induction t ns rule: querySelector.induct)
  case (1 t)
  then show ?case by simp
next
  case (2 t x ns)
  then show ?case by simp
next
  case (3 t tg cl at cs ns)
  show ?case
  proof (cases "tg = t")
    case True
    then show ?thesis by simp
  next
    case False
    note ih1 = "3.IH"(1) [OF False]
    show ?thesis
    proof (cases "querySelector t cs")
      case None
      note ih2 = "3.IH"(2) [OF False None]
      show ?thesis using False None ih1 ih2 by auto
    next
      case (Some m)
      then show ?thesis using False ih1 by auto
    qed
  qed
qed

lemma eager_img_Element:
  "eager_img (Element tg cl at cs) =
     Element tg cl (snd (snd (eager_label (tg, cl, at)))) cs"
  by (simp add: eager_img_def eager_label_def)

lemma update_first_skeleton:
  "map skeleton (update_first t eager_img ns) = map skeleton ns"
  by (induction t eager_img ns rule: update_first.induct) (auto simp: eager_img_Element)

lemma update_first_labels:
  "concat (map labels (update_first t eager_img ns)) =
     change_first (\<lambda>l. fst l = t) eager_label (concat (map labels ns))"
proof (induction t eager_img ns rule: update_first.induct)
  case (1 t)
  then show ?case by simp
next
  case (2 t x ns)
  then show ?case by simp
next
  case (3 t tg cl at cs ns)
  show ?case
  proof (cases "tg = t")
    case True
    then show ?thesis by (simp add: eager_img_Element eager_label_def)
  next
    case False
    show ?thesis
    proof (cases "querySelector t cs = None")
      case True
      then have "\<not> (\<exists>l\<in>set (concat (map labels cs)). fst l = t)"
        by (simp add: querySelector_None_labels)
      then show ?thesis using False True 3 by (simp add: change_first_append)
    next
      case qs: False
      then have "\<exists>l\<in>set (concat (map labels cs)). fst l = t"
        by (simp add: querySelector_None_labels)
      then show ?thesis using False qs 3 by (simp add: change_first_append)
    qed
  qed
qed

lemma link_picture_Element:
  "link_picture lnk = Some pic \<Longrightarrow> \<exists>cl at cs. pic = Element ''picture'' cl at cs"
  by (drule link_picture_tag) (cases pic, auto)

lemma lightbox_media_Element:
  "lightbox_media (Element tg cl at cs) =
     Element tg (if ''lightbox-media'' \<in> set cl then cl else cl @ [''lightbox-media'']) at
       (update_first ''img'' eager_img cs)"
  by (simp add: lightbox_media_def cloneNode_def classList_add_def)

subsection \<open>Listeners are operations\<close>

lemma overlay_click_cases: "overlay_click tg s = s \<or> overlay_click tg s = closeLightbox s"
  by (simp add: overlay_click_def)

lemma onKeyDown_cases:
  "onKeyDown ev s = Inr (ev, s) \<or>
   onKeyDown ev s = Inr (preventDefault ev, closeLightbox s) \<or>
   onKeyDown ev s = map_sum id (Pair (preventDefault ev)) (showByOffset (- 1) s) \<or>
   onKeyDown ev s = map_sum id (Pair (preventDefault ev)) (showByOffset 1 s)"
  by (cases "showByOffset (- 1) s"; cases "showByOffset 1 s") (simp_all add: onKeyDown_def)

section \<open>The claims\<close>

text \<open>
  Claim C1. In every state the widget can reach, for every valid thumbnail index \<open>i\<close> whose
  link has a \<open>picture\<close>, \<open>Activate(i)\<close> succeeds and leaves the overlay visible with
  exactly one node before the caption, a clone of that picture: a \<open>picture\<close> element with
  the attributes of the original, its classes with \<open>lightbox-media\<close> added, and children
  of the same shape whose elements carry the same tags, classes and attributes, except that
  the first \<open>img\<close> in document order has \<open>loading\<close>, \<open>decoding\<close> and \<open>sizes\<close> set to
  \<open>eager\<close>, \<open>async\<close> and \<open>100vw\<close>. The caption is the \<open>alt\<close> attribute of the first \<open>img\<close> of
  link \<open>i\<close>, and the empty string when the link has no \<open>img\<close> or the \<open>img\<close> has no \<open>alt\<close>;
  \<open>activeIndex\<close> is \<open>i\<close>, and the gallery keeps its links. \<open>DisplayItem(i)\<close> does the same
  once the overlay exists.
\<close>

theorem activate_displays_item:
  assumes "perform_all ops (initial links classes active foc) = Inr s"
    and "i < length links"
    and "link_picture (links ! i) = Some pic"
  shows "\<exists>cl at cs cs'.
      pic = Element ''picture'' cl at cs \<and>
      map skeleton cs' = map skeleton cs \<and>
      concat (map labels cs') =
        change_first (\<lambda>l. fst l = ''img'')
          (\<lambda>(tg, c, a).
              (tg, c,
               AList.update ''sizes'' ''100vw''
                 (AList.update ''decoding'' ''async'' (AList.update ''loading'' ''eager'' a))))
          (concat (map labels cs)) \<and>
      (\<exists>s1 ov1. openLightbox (int i) s = Inr s1 \<and> overlay s1 = Some ov1 \<and> \<not> hidden ov1 \<and>
         figure_before_caption ov1 =
           [Element ''picture''
              (if ''lightbox-media'' \<in> set cl then cl else cl @ [''lightbox-media'']) at cs'] \<and>
         caption_textContent ov1 =
           (case querySelector ''img'' (childNodes (links ! i)) of
              None \<Rightarrow> []
            | Some img \<Rightarrow> (case getAttribute img ''alt'' of None \<Rightarrow> [] | Some a \<Rightarrow> a)) \<and>
         activeIndex s1 = int i \<and> galleryLinks s1 = links) \<and>
      (overlay s \<noteq> None \<longrightarrow>
         (\<exists>s2 ov2. showAt (int i) s = Inr s2 \<and> overlay s2 = Some ov2 \<and>
            figure_before_caption ov2 =
              [Element ''picture''
                 (if ''lightbox-media'' \<in> set cl then cl else cl @ [''lightbox-media'']) at cs'] \<and>
            caption_textContent ov2 =
              (case querySelector ''img'' (childNodes (links ! i)) of
                 None \<Rightarrow> []
               | Some img \<Rightarrow> (case getAttribute img ''alt'' of None \<Rightarrow> [] | Some a \<Rightarrow> a)) \<and>
            activeIndex s2 = int i \<and> galleryLinks s2 = links))"
proof -
  have inv: "inv s" using assms(1) by (rule reachable_inv)
  have links: "galleryLinks s = links" using assms(1) by (rule reachable_links)
  have ne: "galleryLinks s \<noteq> []" using assms(2) links by auto
  have md: "int i mod int (length links) = int i"
    using assms(2) by simp
  have pic: "link_picture (galleryLinks s ! nat (int i mod int (length (galleryLinks s)))) = Some pic"
    unfolding links md using assms(3) by simp
  obtain cl at cs where el: "pic = Element ''picture'' cl at cs"
    using link_picture_Element [OF assms(3)] by blast
  let ?cs' = "update_first ''img'' eager_img cs"
  let ?m = "Element ''picture''
              (if ''lightbox-media'' \<in> set cl then cl else cl @ [''lightbox-media'']) at ?cs'"
  let ?alt = "case querySelector ''img'' (childNodes (links ! i)) of
                None \<Rightarrow> []
              | Some img \<Rightarrow> (case getAttribute img ''alt'' of None \<Rightarrow> [] | Some a \<Rightarrow> a)"
  have m: "lightbox_media pic = ?m" unfolding el by (rule lightbox_media_Element)
  have alt: "link_alt (links ! i) = ?alt" by (simp add: link_alt_def)
  have fn: "(\<lambda>(tg, c, a).
              (tg, c,
               AList.update ''sizes'' ''100vw''
                 (AList.update ''decoding'' ''async'' (AList.update ''loading'' ''eager'' a)))) =
            eager_label"
    by (auto simp: eager_label_def fun_eq_iff)
  have sk: "map skeleton ?cs' = map skeleton cs" by (rule update_first_skeleton)
  have lb: "concat (map labels ?cs') =
        change_first (\<lambda>l. fst l = ''img'')
          (\<lambda>(tg, c, a).
              (tg, c,
               AList.update ''sizes'' ''100vw''
                 (AList.update ''decoding'' ''async'' (AList.update ''loading'' ''eager'' a))))
          (concat (map labels cs))"
    unfolding fn by (rule update_first_labels)
  obtain s1 ov1 where o1: "openLightbox (int i) s = Inr s1" "overlay s1 = Some ov1" "\<not> hidden ov1"
    "figure_before_caption ov1 = [lightbox_media pic]"
    "caption_textContent ov1 = link_alt (links ! i)" "activeIndex s1 = int i"
    using openLightbox_shows [OF inv ne pic] unfolding links md by auto
  have l1: "galleryLinks s1 = links" using openLightbox_links [OF o1(1)] links by simp
  have a: "\<exists>s1 ov1. openLightbox (int i) s = Inr s1 \<and> overlay s1 = Some ov1 \<and> \<not> hidden ov1 \<and>
         figure_before_caption ov1 = [?m] \<and> caption_textContent ov1 = ?alt \<and>
         activeIndex s1 = int i \<and> galleryLinks s1 = links"
    using o1 l1 unfolding m alt by blast
  have b: "overlay s \<noteq> None \<longrightarrow>
         (\<exists>s2 ov2. showAt (int i) s = Inr s2 \<and> overlay s2 = Some ov2 \<and>
            figure_before_caption ov2 = [?m] \<and> caption_textContent ov2 = ?alt \<and>
            activeIndex s2 = int i \<and> galleryLinks s2 = links)"
  proof
    assume "overlay s \<noteq> None"
    then obtain ov where ov: "overlay s = Some ov" by auto
    have rm: "remove_first ''picture'' (figure_before_caption ov) = []"
      using inv ov by (simp add: inv_def figure_ok_remove)
    show "\<exists>s2 ov2. showAt (int i) s = Inr s2 \<and> overlay s2 = Some ov2 \<and>
            figure_before_caption ov2 = [?m] \<and> caption_textContent ov2 = ?alt \<and>
            activeIndex s2 = int i \<and> galleryLinks s2 = links"
      unfolding showAt_picture [OF ov ne pic, unfolded rm] links md
      using links by (simp add: m alt)
  qed
  show ?thesis using el sk lb a b by blast
qed

theorem activate_displays_item_witness:
  "perform_all [Activate 1, Navigate 1] (initial gallery_ABC [] (Some (PageHTMLElement 0))
       [PageHTMLElement 0, CloseButtonOf 0]) =
     Inr (page_after [Activate 1, Navigate 1] gallery_ABC) \<and>
   (0::nat) < length gallery_ABC \<and>
   link_picture (gallery_ABC ! 0) =
     Some (Element ''picture'' [] []
             [Element ''source'' [] [(''srcset'', ''A'')] [],
              Element ''img'' [] [(''src'', ''A''), (''alt'', ''A'')] []]) \<and>
   map_sum id (map_option figure_before_caption \<circ> overlay)
       (openLightbox 0 (page_after [Activate 1, Navigate 1] gallery_ABC)) =
     Inr (Some [Element ''picture'' [''lightbox-media''] []
                  [Element ''source'' [] [(''srcset'', ''A'')] [],
                   Element ''img'' []
                     [(''src'', ''A''), (''alt'', ''A''), (''loading'', ''eager''),
                      (''decoding'', ''async''), (''sizes'', ''100vw'')] []]]) \<and>
   map_sum id (map_option caption_textContent \<circ> overlay)
       (openLightbox 0 (page_after [Activate 1, Navigate 1] gallery_ABC)) =
     Inr (Some ''A'') \<and>
   map_sum id activeIndex (openLightbox 0 (page_after [Activate 1, Navigate 1] gallery_ABC)) =
     Inr 0 \<and>
   map_sum id (map_option figure_before_caption \<circ> overlay)
       (showAt 0 (page_after [Activate 1, Navigate 1] gallery_ABC)) =
     Inr (Some [Element ''picture'' [''lightbox-media''] []
                  [Element ''source'' [] [(''srcset'', ''A'')] [],
                   Element ''img'' []
                     [(''src'', ''A''), (''alt'', ''A''), (''loading'', ''eager''),
                      (''decoding'', ''async''), (''sizes'', ''100vw'')] []]])"
proof -
  let ?S = "page_after [Activate 1, Navigate 1] gallery_ABC"
  let ?pic = "Element ''picture'' [] []
             [Element ''source'' [] [(''srcset'', ''A'')] [],
              Element ''img'' [] [(''src'', ''A''), (''alt'', ''A'')] []]"
  let ?kids = "[Element ''source'' [] [(''srcset'', ''A'')] [],
                   Element ''img'' []
                     [(''src'', ''A''), (''alt'', ''A''), (''loading'', ''eager''),
                      (''decoding'', ''async''), (''sizes'', ''100vw'')] []]"
  have "\<not> isl (perform_all [Activate 1, Navigate 1] (page gallery_ABC))" by code_simp
  then have r: "perform_all [Activate 1, Navigate 1] (initial gallery_ABC [] (Some (PageHTMLElement 0))
       [PageHTMLElement 0, CloseButtonOf 0]) = Inr ?S"
    unfolding page_def [symmetric] by (rule page_after_reached)
  have n: "(0::nat) < length gallery_ABC" by (simp add: gallery_ABC_def)
  have p: "link_picture (gallery_ABC ! 0) = Some ?pic" by code_simp
  have q: "querySelector ''img'' (childNodes (gallery_ABC ! 0)) =
             Some (Element ''img'' [] [(''src'', ''A''), (''alt'', ''A'')] [])" by code_simp
  from activate_displays_item [OF r n p] obtain s1 ov1 where
    o1: "openLightbox (int 0) ?S = Inr s1" "overlay s1 = Some ov1"
      "caption_textContent ov1 =
         (case querySelector ''img'' (childNodes (gallery_ABC ! 0)) of
            None \<Rightarrow> []
          | Some img \<Rightarrow> (case getAttribute img ''alt'' of None \<Rightarrow> [] | Some a \<Rightarrow> a))"
      "activeIndex s1 = int 0"
    by blast
  have cap: "map_sum id (map_option caption_textContent \<circ> overlay) (openLightbox 0 ?S) =
      Inr (Some ''A'')"
    using o1 q by simp
  have ai: "map_sum id activeIndex (openLightbox 0 ?S) = Inr 0" using o1 by simp
  have f1: "map_sum id (map_option figure_before_caption \<circ> overlay) (openLightbox 0 ?S) =
      Inr (Some [Element ''picture'' [''lightbox-media''] [] ?kids])"
    by code_simp
  have f2: "map_sum id (map_option figure_before_caption \<circ> overlay) (showAt 0 ?S) =
      Inr (Some [Element ''picture'' [''lightbox-media''] [] ?kids])"
    by code_simp
  show ?thesis using r n p f1 cap ai f2 by (intro conjI)
qed

text \<open>
  Claim C2. With at least one link and the overlay built, \<open>DisplayItem\<close> at any integer
  index, negative ones included, normalizes it to \<open>index mod n\<close>, a value in \<open>[0, n)\<close>,
  displays the link at that position and makes it the \<open>activeIndex\<close>. Index \<open>-1\<close> gives
  \<open>n - 1\<close>; \<open>Navigate(+1)\<close> from \<open>n - 1\<close> gives \<open>0\<close>; \<open>Navigate(-1)\<close> from \<open>0\<close> gives
  \<open>n - 1\<close>.
\<close>

theorem display_item_wraps:
  assumes "overlay s \<noteq> None" and "1 \<le> length (galleryLinks s)"
  shows "normalize i (length (galleryLinks s)) = Some (i mod int (length (galleryLinks s))) \<and>
      (\<exists>s1. showAt i s = Inr s1 \<and>
            activeIndex s1 = i mod int (length (galleryLinks s)) \<and>
            0 \<le> activeIndex s1 \<and> activeIndex s1 < int (length (galleryLinks s))) \<and>
      showAt i s =
        setOverlayMedia
          \<lparr>link = galleryLinks s ! nat (i mod int (length (galleryLinks s))),
           picture = link_picture (galleryLinks s ! nat (i mod int (length (galleryLinks s)))),
           alt = link_alt (galleryLinks s ! nat (i mod int (length (galleryLinks s))))\<rparr>
          (s\<lparr>activeIndex := i mod int (length (galleryLinks s))\<rparr>) \<and>
      (\<exists>s2. showAt (- 1) s = Inr s2 \<and> activeIndex s2 = int (length (galleryLinks s)) - 1) \<and>
      (activeIndex s = int (length (galleryLinks s)) - 1 \<longrightarrow>
         (\<exists>s3. showByOffset 1 s = Inr s3 \<and> activeIndex s3 = 0)) \<and>
      (activeIndex s = 0 \<longrightarrow>
         (\<exists>s4. showByOffset (- 1) s = Inr s4 \<and>
               activeIndex s4 = int (length (galleryLinks s)) - 1))"
proof -
  let ?n = "int (length (galleryLinks s))"
  have ne: "galleryLinks s \<noteq> []" using assms(2) by auto
  have pos: "0 < ?n" using assms(2) by linarith
  obtain ov where ov: "overlay s = Some ov" using assms(1) by auto
  have at: "\<exists>s'. showAt j s = Inr s' \<and> activeIndex s' = j mod ?n" for j
    using showAt_Some [OF ov, of j] ne by auto
  have z: "normalize i (length (galleryLinks s)) = Some (i mod ?n)"
    using ne by (simp add: normalize_mod)
  have m1: "(- 1) mod ?n = ?n - 1" using pos by (rule zmod_minus1)
  have wrap_up: "(?n - 1 + 1) mod ?n = 0" by simp
  have range: "0 \<le> i mod ?n" "i mod ?n < ?n"
    using pos by (rule pos_mod_sign, rule pos_mod_bound)
  have a: "\<exists>s1. showAt i s = Inr s1 \<and> activeIndex s1 = i mod ?n \<and>
            0 \<le> activeIndex s1 \<and> activeIndex s1 < ?n"
    using at [of i] range by auto
  have b: "showAt i s =
        setOverlayMedia
          \<lparr>link = galleryLinks s ! nat (i mod ?n),
           picture = link_picture (galleryLinks s ! nat (i mod ?n)),
           alt = link_alt (galleryLinks s ! nat (i mod ?n))\<rparr>
          (s\<lparr>activeIndex := i mod ?n\<rparr>)"
    using ne by (rule showAt_nonempty)
  have c: "\<exists>s2. showAt (- 1) s = Inr s2 \<and> activeIndex s2 = ?n - 1"
    using at [of "- 1"] m1 by simp
  have d: "activeIndex s = ?n - 1 \<longrightarrow> (\<exists>s3. showByOffset 1 s = Inr s3 \<and> activeIndex s3 = 0)"
    using at [of "?n - 1 + 1"] wrap_up by (auto simp: showByOffset_def)
  have e: "activeIndex s = 0 \<longrightarrow>
         (\<exists>s4. showByOffset (- 1) s = Inr s4 \<and> activeIndex s4 = ?n - 1)"
    using c by (auto simp: showByOffset_def)
  show ?thesis using z a b c d e by (intro conjI)
qed

theorem display_item_wraps_witness:
  "overlay (page_after [Activate 2] gallery_ABC) \<noteq> None \<and>
   1 \<le> length (galleryLinks (page_after [Activate 2] gallery_ABC)) \<and>
   activeIndex (page_after [Activate 2] gallery_ABC) = 2 \<and>
   map_sum id activeIndex (showAt 7 (page_after [Activate 2] gallery_ABC)) = Inr 1 \<and>
   map_sum id activeIndex (showAt (- 1) (page_after [Activate 2] gallery_ABC)) = Inr 2 \<and>
   map_sum id activeIndex (showByOffset 1 (page_after [Activate 2] gallery_ABC)) = Inr 0"
proof -
  let ?S = "page_after [Activate 2] gallery_ABC"
  have o: "overlay ?S \<noteq> None" by code_simp
  have n: "1 \<le> length (galleryLinks ?S)" by code_simp
  have len: "int (length (galleryLinks ?S)) = 3" by code_simp
  have ai: "activeIndex ?S = 2" by code_simp
  note t = display_item_wraps [OF o n, of 7, unfolded len]
  from t obtain s1 where "showAt 7 ?S = Inr s1" "activeIndex s1 = 7 mod 3" by blast
  moreover from t obtain s2 where "showAt (- 1) ?S = Inr s2" "activeIndex s2 = 3 - 1" by blast
  moreover from t ai obtain s3 where "showByOffset 1 ?S = Inr s3" "activeIndex s3 = 0" by auto
  ultimately show ?thesis using o n ai by simp
qed

text \<open>
  Claim C3. After any history of \<open>Activate\<close>, \<open>DisplayItem\<close>, \<open>Navigate\<close> and
  \<open>Deactivate\<close> calls, the figure of the overlay holds at most one node besides the
  caption, and that node is a \<open>picture\<close> element marked \<open>lightbox-media\<close>: every display
  removes the old media node before it inserts the new one.
\<close>

theorem at_most_one_media_node:
  assumes "perform_all ops (initial links classes active foc) = Inr s"
    and "overlay s = Some ov"
  shows "length (figure_before_caption ov) \<le> 1 \<and>
         list_all (\<lambda>m. has_tag ''picture'' m \<and> has_class ''lightbox-media'' m)
           (figure_before_caption ov)"
proof -
  have "inv s" using assms(1) by (rule reachable_inv)
  then have "figure_ok (figure_before_caption ov)" using assms(2) by (simp add: inv_def)
  then show ?thesis by (auto simp: figure_ok_def split: list.splits)
qed

theorem at_most_one_media_node_witness:
  "perform_all [Activate 1, Navigate 1, DisplayItem (- 5), Navigate 1]
       (initial gallery_ABC [] (Some (PageHTMLElement 0)) [PageHTMLElement 0, CloseButtonOf 0]) =
     Inr (page_after [Activate 1, Navigate 1, DisplayItem (- 5), Navigate 1] gallery_ABC) \<and>
   overlay (page_after [Activate 1, Navigate 1, DisplayItem (- 5), Navigate 1] gallery_ABC) =
     Some (the (overlay (page_after [Activate 1, Navigate 1, DisplayItem (- 5), Navigate 1] gallery_ABC))) \<and>
   length (figure_before_caption
     (the (overlay (page_after [Activate 1, Navigate 1, DisplayItem (- 5), Navigate 1] gallery_ABC)))) = 1"
proof -
  let ?ops = "[Activate 1, Navigate 1, DisplayItem (- 5), Navigate 1]"
  let ?S = "page_after ?ops gallery_ABC"
  have "\<not> isl (perform_all ?ops (page gallery_ABC))" by code_simp
  then have r: "perform_all ?ops (initial gallery_ABC [] (Some (PageHTMLElement 0))
       [PageHTMLElement 0, CloseButtonOf 0]) = Inr ?S"
    unfolding page_def [symmetric] by (rule page_after_reached)
  have "overlay ?S \<noteq> None" by code_simp
  then have o: "overlay ?S = Some (the (overlay ?S))" by simp
  have l: "length (figure_before_caption (the (overlay ?S))) \<noteq> 0" by code_simp
  have "length (figure_before_caption (the (overlay ?S))) \<le> 1"
    using at_most_one_media_node [OF r o] by simp
  then have "length (figure_before_caption (the (overlay ?S))) = 1" using l by linarith
  then show ?thesis using r o by (intro conjI)
qed

text \<open>
  Claim C4. In every state reachable by a history of \<open>Activate\<close>, \<open>Navigate\<close>,
  \<open>DisplayItem\<close> and \<open>Deactivate\<close> on a gallery with at least one link,
  \<open>0 \<le> activeIndex < itemCount\<close>; in particular whenever the overlay is open.
\<close>

theorem activeIndex_in_range:
  assumes "perform_all ops (initial links classes active foc) = Inr s"
    and "1 \<le> length links"
  shows "0 \<le> activeIndex s \<and> activeIndex s < int (length links)"
proof -
  have "inv s" using assms(1) by (rule reachable_inv)
  moreover have "galleryLinks s = links" using assms(1) by (rule reachable_links)
  ultimately show ?thesis using assms(2) by (auto simp: inv_def)
qed

theorem activeIndex_in_range_witness:
  "perform_all [Activate 1, Navigate 1, Navigate 1, Deactivate, Activate (- 1)]
       (initial gallery_ABC [] (Some (PageHTMLElement 0)) [PageHTMLElement 0, CloseButtonOf 0]) =
     Inr (page_after [Activate 1, Navigate 1, Navigate 1, Deactivate, Activate (- 1)] gallery_ABC) \<and>
   1 \<le> length gallery_ABC \<and>
   0 \<le> activeIndex (page_after [Activate 1, Navigate 1, Navigate 1, Deactivate, Activate (- 1)] gallery_ABC) \<and>
   activeIndex (page_after [Activate 1, Navigate 1, Navigate 1, Deactivate, Activate (- 1)] gallery_ABC)
     < int (length gallery_ABC)"
proof -
  let ?ops = "[Activate 1, Navigate 1, Navigate 1, Deactivate, Activate (- 1)]"
  have "\<not> isl (perform_all ?ops (page gallery_ABC))" by code_simp
  then have r: "perform_all ?ops (initial gallery_ABC [] (Some (PageHTMLElement 0))
       [PageHTMLElement 0, CloseButtonOf 0]) = Inr (page_after ?ops gallery_ABC)"
    unfolding page_def [symmetric] by (rule page_after_reached)
  have n: "1 \<le> length gallery_ABC" by (simp add: gallery_ABC_def)
  show ?thesis using activeIndex_in_range [OF r n] r n by simp
qed

text \<open>
  Claim C5 says that \<open>DisplayItem\<close> on a link without a \<open>picture\<close> changes nothing. It does
  not hold: with thumbnail \<open>A\<close> displayed, \<open>DisplayItem(1)\<close> on a second thumbnail that has no
  \<open>picture\<close> removes the media node of \<open>A\<close> and sets \<open>activeIndex\<close> to 1; the caption stays
  \<open>A\<close>.
\<close>

theorem display_item_noop_counterexample:
  "perform_all [Activate 0] (page gallery_bare) = Inr (page_after [Activate 0] gallery_bare) \<and>
   link_picture (gallery_bare ! 1) = None \<and>
   showAt 1 (page_after [Activate 0] gallery_bare) \<noteq> Inr (page_after [Activate 0] gallery_bare) \<and>
   activeIndex (page_after [Activate 0] gallery_bare) = 0 \<and>
   map_sum id activeIndex (showAt 1 (page_after [Activate 0] gallery_bare)) = Inr 1 \<and>
   (map_option figure_before_caption \<circ> overlay) (page_after [Activate 0] gallery_bare) =
     Some [lightbox_media (thumbnail_picture ''A'')] \<and>
   map_sum id (map_option figure_before_caption \<circ> overlay)
       (showAt 1 (page_after [Activate 0] gallery_bare)) = Inr (Some []) \<and>
   map_sum id (map_option caption_textContent \<circ> overlay)
       (showAt 1 (page_after [Activate 0] gallery_bare)) = Inr (Some ''A'')"
proof -
  have "\<not> isl (perform_all [Activate 0] (page gallery_bare))" by code_simp
  then have "perform_all [Activate 0] (page gallery_bare) = Inr (page_after [Activate 0] gallery_bare)"
    by (rule page_after_reached)
  moreover have "link_picture (gallery_bare ! 1) = None" by code_simp
  moreover have "showAt 1 (page_after [Activate 0] gallery_bare) \<noteq>
      Inr (page_after [Activate 0] gallery_bare)" by code_simp
  moreover have "activeIndex (page_after [Activate 0] gallery_bare) = 0" by code_simp
  moreover have "map_sum id activeIndex (showAt 1 (page_after [Activate 0] gallery_bare)) = Inr 1"
    by code_simp
  moreover have "(map_option figure_before_caption \<circ> overlay) (page_after [Activate 0] gallery_bare) =
     Some [lightbox_media (thumbnail_picture ''A'')]" by code_simp
  moreover have "map_sum id (map_option figure_before_caption \<circ> overlay)
       (showAt 1 (page_after [Activate 0] gallery_bare)) = Inr (Some [])" by code_simp
  moreover have "map_sum id (map_option caption_textContent \<circ> overlay)
       (showAt 1 (page_after [Activate 0] gallery_bare)) = Inr (Some ''A'')" by code_simp
  ultimately show ?thesis by (intro conjI)
qed

text \<open>
  Claim C5, amended. In every reachable state with the overlay built and at least one
  link, \<open>DisplayItem\<close> on a link without a \<open>picture\<close> raises no error, inserts no media node
  and leaves the caption and everything else unchanged, except that \<open>activeIndex\<close> becomes
  the normalized index and the media node on display, if any, is removed.
\<close>

theorem display_item_without_picture:
  assumes "perform_all ops (initial links classes active foc) = Inr s"
    and "overlay s = Some ov"
    and "1 \<le> length links"
    and "link_picture (links ! nat (i mod int (length links))) = None"
  shows "showAt i s =
           Inr (s\<lparr>activeIndex := i mod int (length links),
                  overlay := Some (ov\<lparr>figure_before_caption := []\<rparr>)\<rparr>)"
proof -
  have inv: "inv s" using assms(1) by (rule reachable_inv)
  have links: "galleryLinks s = links" using assms(1) by (rule reachable_links)
  have ne: "galleryLinks s \<noteq> []" using assms(3) links by auto
  have rm: "remove_first ''picture'' (figure_before_caption ov) = []"
    using inv assms(2) by (simp add: inv_def figure_ok_remove)
  have pic: "link_picture (galleryLinks s ! nat (i mod int (length (galleryLinks s)))) = None"
    unfolding links using assms(4) .
  show ?thesis using showAt_no_picture [OF assms(2) ne pic] unfolding rm links .
qed

theorem display_item_without_picture_witness:
  "perform_all [Activate 0]
       (initial gallery_bare [] (Some (PageHTMLElement 0)) [PageHTMLElement 0, CloseButtonOf 0]) =
     Inr (page_after [Activate 0] gallery_bare) \<and>
   overlay (page_after [Activate 0] gallery_bare) =
     Some (the (overlay (page_after [Activate 0] gallery_bare))) \<and>
   1 \<le> length gallery_bare \<and>
   link_picture (gallery_bare ! nat (3 mod int (length gallery_bare))) = None \<and>
   showAt 3 (page_after [Activate 0] gallery_bare) =
     Inr ((page_after [Activate 0] gallery_bare)
            \<lparr>activeIndex := 1,
             overlay := Some ((the (overlay (page_after [Activate 0] gallery_bare)))
                                \<lparr>figure_before_caption := []\<rparr>)\<rparr>)"
proof -
  let ?S = "page_after [Activate 0] gallery_bare"
  have "\<not> isl (perform_all [Activate 0] (page gallery_bare))" by code_simp
  then have r: "perform_all [Activate 0] (initial gallery_bare [] (Some (PageHTMLElement 0))
       [PageHTMLElement 0, CloseButtonOf 0]) = Inr ?S"
    unfolding page_def [symmetric] by (rule page_after_reached)
  have "overlay ?S \<noteq> None" by code_simp
  then have o: "overlay ?S = Some (the (overlay ?S))" by simp
  have n: "1 \<le> length gallery_bare" by (simp add: gallery_bare_def)
  have p: "link_picture (gallery_bare ! nat (3 mod int (length gallery_bare))) = None" by code_simp
  have m: "3 mod int (length gallery_bare) = 1" by (simp add: gallery_bare_def)
  show ?thesis using display_item_without_picture [OF r o n p] r o n p unfolding m by simp
qed

text \<open>
  Claim C6. The click listener of the link at position \<open>i\<close>: when the default was
  already prevented, the button is not the primary one, or meta, ctrl, shift or alt is held,
  it returns with the event and the state unchanged (no \<open>preventDefault\<close>, no overlay
  opened); otherwise it prevents the default and calls \<open>Activate(i)\<close>.
\<close>

theorem link_click_policy:
  assumes "i < length (galleryLinks s)"
  shows "(defaultPrevented ev \<or> button ev \<noteq> 0 \<or> metaKey ev \<or> ctrlKey ev \<or> shiftKey ev \<or> altKey ev
            \<longrightarrow> (link_listeners s ! i) ev s = Inr (ev, s)) \<and>
         (\<not> (defaultPrevented ev \<or> button ev \<noteq> 0 \<or> metaKey ev \<or> ctrlKey ev \<or> shiftKey ev \<or>
              altKey ev)
            \<longrightarrow> (link_listeners s ! i) ev s =
                  map_sum id (Pair (ev\<lparr>defaultPrevented := True\<rparr>)) (perform (Activate (int i)) s))"
proof -
  have "galleryLinks s \<noteq> []" using assms by auto
  then have "link_listeners s ! i = link_click i" using assms by (simp add: link_listeners_def)
  then show ?thesis by (auto simp: link_click_def preventDefault_def split: sum.splits)
qed

theorem link_click_policy_witness:
  "(1::nat) < length (galleryLinks (page gallery_ABC)) \<and>
   ctrlKey ctrl_click \<and>
   (link_listeners (page gallery_ABC) ! 1) ctrl_click (page gallery_ABC) =
     Inr (ctrl_click, page gallery_ABC) \<and>
   \<not> (defaultPrevented plain_click \<or> button plain_click \<noteq> 0 \<or> metaKey plain_click \<or>
      ctrlKey plain_click \<or> shiftKey plain_click \<or> altKey plain_click) \<and>
   (link_listeners (page gallery_ABC) ! 1) plain_click (page gallery_ABC) =
     Inr (plain_click\<lparr>defaultPrevented := True\<rparr>, page_after [Activate 1] gallery_ABC)"
proof -
  have n: "(1::nat) < length (galleryLinks (page gallery_ABC))" by code_simp
  have c: "ctrlKey ctrl_click" by (simp add: ctrl_click_def)
  have p: "\<not> (defaultPrevented plain_click \<or> button plain_click \<noteq> 0 \<or> metaKey plain_click \<or>
      ctrlKey plain_click \<or> shiftKey plain_click \<or> altKey plain_click)"
    by (simp add: plain_click_def)
  have "\<not> isl (perform_all [Activate 1] (page gallery_ABC))" by code_simp
  then have "perform_all [Activate 1] (page gallery_ABC) = Inr (page_after [Activate 1] gallery_ABC)"
    by (rule page_after_reached)
  then have a: "perform (Activate (int 1)) (page gallery_ABC) = Inr (page_after [Activate 1] gallery_ABC)"
    by (simp split: sum.splits)
  show ?thesis
    using link_click_policy [OF n, of ctrl_click] link_click_policy [OF n, of plain_click] n c p a
    by simp
qed

text \<open>
  Claim C7. After any history from the initial page, the overlays appended to the body
  are none when no \<open>Activate\<close> has happened, and exactly one otherwise, however many
  activations followed: one overlay has been created, it is the first one (identity 0), and
  the \<open>overlay\<close> variable refers to it.
\<close>

theorem overlay_built_once:
  assumes "perform_all ops (initial links classes active foc) = Inr s"
  shows "body_appended s = (if list_ex is_Activate ops then [0] else []) \<and>
         created s = (if list_ex is_Activate ops then 1 else 0) \<and>
         map_option oid (overlay s) = (if list_ex is_Activate ops then Some 0 else None)"
proof -
  have inv: "inv s" using assms by (rule reachable_inv)
  have "overlay s = None \<longleftrightarrow> \<not> list_ex is_Activate ops"
    using perform_all_overlay_None [OF initial_inv assms] by (simp add: initial_def)
  then show ?thesis using inv by (cases "overlay s") (auto simp: inv_def)
qed

theorem overlay_built_once_witness:
  "perform_all [Activate 1, Deactivate, Activate 2, Navigate 1, Activate 0]
       (initial gallery_ABC [] (Some (PageHTMLElement 0)) [PageHTMLElement 0, CloseButtonOf 0]) =
     Inr (page_after [Activate 1, Deactivate, Activate 2, Navigate 1, Activate 0] gallery_ABC) \<and>
   body_appended (page_after [Activate 1, Deactivate, Activate 2, Navigate 1, Activate 0] gallery_ABC) = [0] \<and>
   created (page_after [Activate 1, Deactivate, Activate 2, Navigate 1, Activate 0] gallery_ABC) = 1 \<and>
   map_option oid
     (overlay (page_after [Activate 1, Deactivate, Activate 2, Navigate 1, Activate 0] gallery_ABC)) = Some 0"
proof -
  let ?ops = "[Activate 1, Deactivate, Activate 2, Navigate 1, Activate 0]"
  have "\<not> isl (perform_all ?ops (page gallery_ABC))" by code_simp
  then have r: "perform_all ?ops (initial gallery_ABC [] (Some (PageHTMLElement 0))
       [PageHTMLElement 0, CloseButtonOf 0]) = Inr (page_after ?ops gallery_ABC)"
    unfolding page_def [symmetric] by (rule page_after_reached)
  show ?thesis using overlay_built_once [OF r] r by simp
qed

text \<open>
  Claim C8 says that \<open>Deactivate\<close> restores the focus to the element focused before the
  opening \<open>Activate\<close>. It does not hold when that element is not an \<open>HTMLElement\<close>: here an
  SVG element has the focus and can still take it, \<open>Activate(1)\<close> opens the overlay and moves
  the focus to the close button, and after \<open>Deactivate\<close> the focus is still on the close
  button.
\<close>

theorem deactivate_focus_counterexample:
  "activeElement (svg_page gallery_ABC) = Some (PageOtherElement 0) \<and>
   PageOtherElement 0 \<in> set (focusable (svg_page gallery_ABC)) \<and>
   map_sum id (map_option hidden \<circ> overlay) (perform_all [Activate 1] (svg_page gallery_ABC)) =
     Inr (Some False) \<and>
   map_sum id focusable (perform_all [Activate 1] (svg_page gallery_ABC)) =
     Inr [PageOtherElement 0, CloseButtonOf 0] \<and>
   map_sum id activeElement (perform_all [Activate 1, Deactivate] (svg_page gallery_ABC)) =
     Inr (Some (CloseButtonOf 0))"
proof -
  have "activeElement (svg_page gallery_ABC) = Some (PageOtherElement 0)" by code_simp
  moreover have "PageOtherElement 0 \<in> set (focusable (svg_page gallery_ABC))" by code_simp
  moreover have "map_sum id (map_option hidden \<circ> overlay)
      (perform_all [Activate 1] (svg_page gallery_ABC)) = Inr (Some False)" by code_simp
  moreover have "map_sum id focusable (perform_all [Activate 1] (svg_page gallery_ABC)) =
     Inr [PageOtherElement 0, CloseButtonOf 0]" by code_simp
  moreover have "map_sum id activeElement
      (perform_all [Activate 1, Deactivate] (svg_page gallery_ABC)) = Inr (Some (CloseButtonOf 0))"
    by code_simp
  ultimately show ?thesis by (intro conjI)
qed

text \<open>
  Claim C8, amended. After \<open>Activate\<close> from any state, followed by any operations other than
  \<open>Activate\<close> and \<open>Deactivate\<close>, \<open>Deactivate\<close> leaves \<open>restoreFocusTo\<close> empty, and
  moves the focus to the element that had it immediately before the \<open>Activate\<close> provided
  that element is an \<open>HTMLElement\<close> and can take the focus at that moment; otherwise the
  focus stays where it is.
\<close>

theorem deactivate_restores_focus:
  assumes "openLightbox i s = Inr s1"
    and "perform_all ops s1 = Inr s2"
    and "list_all keeps_focus_record ops"
  shows "restoreFocusTo (closeLightbox s2) = None \<and>
         activeElement (closeLightbox s2) =
           (case activeElement s of
              None \<Rightarrow> activeElement s2
            | Some e \<Rightarrow>
                if is_HTMLElement e \<and> e \<in> set (focusable s2) then Some e else activeElement s2)"
proof -
  have r1: "restoreFocusTo s1 =
           (case activeElement s of
              None \<Rightarrow> None
            | Some e \<Rightarrow> if is_HTMLElement e then Some e else None)"
    and o1: "overlay s1 \<noteq> None"
    using openLightbox_records [OF assms(1)] by simp_all
  have r2: "restoreFocusTo s2 = restoreFocusTo s1" and o2: "overlay s2 \<noteq> None"
    using perform_all_keeps_record [OF assms(3) assms(2)] o1 by simp_all
  show ?thesis using closeLightbox_focus [OF o2] unfolding r2 r1
    by (auto split: option.splits)
qed

theorem deactivate_restores_focus_witness:
  "openLightbox 1 (page gallery_ABC) = Inr (page_after [Activate 1] gallery_ABC) \<and>
   perform_all [Navigate 1, DisplayItem 5] (page_after [Activate 1] gallery_ABC) =
     Inr (page_after [Activate 1, Navigate 1, DisplayItem 5] gallery_ABC) \<and>
   list_all keeps_focus_record [Navigate 1, DisplayItem 5] \<and>
   activeElement (page gallery_ABC) = Some (PageHTMLElement 0) \<and>
   activeElement (page_after [Activate 1, Navigate 1, DisplayItem 5] gallery_ABC) =
     Some (CloseButtonOf 0) \<and>
   restoreFocusTo (closeLightbox (page_after [Activate 1, Navigate 1, DisplayItem 5] gallery_ABC)) = None \<and>
   activeElement (closeLightbox (page_after [Activate 1, Navigate 1, DisplayItem 5] gallery_ABC)) =
     Some (PageHTMLElement 0)"
proof -
  let ?S1 = "page_after [Activate 1] gallery_ABC"
  let ?S2 = "page_after [Activate 1, Navigate 1, DisplayItem 5] gallery_ABC"
  have a: "openLightbox 1 (page gallery_ABC) = Inr ?S1" by code_simp
  have b: "perform_all [Navigate 1, DisplayItem 5] ?S1 = Inr ?S2" by code_simp
  have c: "list_all keeps_focus_record [Navigate 1, DisplayItem 5]" by simp
  have d: "activeElement (page gallery_ABC) = Some (PageHTMLElement 0)" by code_simp
  have e: "activeElement ?S2 = Some (CloseButtonOf 0)" by code_simp
  have f: "PageHTMLElement 0 \<in> set (focusable ?S2)" by code_simp
  show ?thesis using deactivate_restores_focus [OF a b c] a b c d e f by simp
qed

text \<open>
  Claim C9. In every reachable state where the overlay does not exist or is hidden,
  \<open>Deactivate\<close> leaves the whole state unchanged: overlay, body classes, key listener,
  focus and focus record.
\<close>

theorem deactivate_noop_when_closed:
  assumes "perform_all ops (initial links classes active foc) = Inr s"
    and "overlay s = None \<or> map_option hidden (overlay s) = Some True"
  shows "closeLightbox s = s"
proof (cases "overlay s")
  case None
  then show ?thesis by (simp add: closeLightbox_def)
next
  case (Some ov)
  have inv: "inv s" using assms(1) by (rule reachable_inv)
  have h: "hidden ov" using assms(2) Some by simp
  then have "''lightbox-open'' \<notin> set (body_classList s)" "\<not> keydown_listening s"
    "restoreFocusTo s = None"
    using inv Some by (simp_all add: inv_def)
  then show ?thesis using Some h
    by (simp add: closeLightbox_def classList_remove_def Let_def)
qed

theorem deactivate_noop_when_closed_witness:
  "perform_all [Activate 1, Navigate 1, Deactivate]
       (initial gallery_ABC [] (Some (PageHTMLElement 0)) [PageHTMLElement 0, CloseButtonOf 0]) =
     Inr (page_after [Activate 1, Navigate 1, Deactivate] gallery_ABC) \<and>
   map_option hidden (overlay (page_after [Activate 1, Navigate 1, Deactivate] gallery_ABC)) =
     Some True \<and>
   closeLightbox (page_after [Activate 1, Navigate 1, Deactivate] gallery_ABC) =
     page_after [Activate 1, Navigate 1, Deactivate] gallery_ABC"
proof -
  let ?ops = "[Activate 1, Navigate 1, Deactivate]"
  have "\<not> isl (perform_all ?ops (page gallery_ABC))" by code_simp
  then have r: "perform_all ?ops (initial gallery_ABC [] (Some (PageHTMLElement 0))
       [PageHTMLElement 0, CloseButtonOf 0]) = Inr (page_after ?ops gallery_ABC)"
    unfolding page_def [symmetric] by (rule page_after_reached)
  have h: "map_option hidden (overlay (page_after ?ops gallery_ABC)) = Some True" by code_simp
  then have h': "overlay (page_after ?ops gallery_ABC) = None \<or>
      map_option hidden (overlay (page_after ?ops gallery_ABC)) = Some True" by simp
  show ?thesis using deactivate_noop_when_closed [OF r h'] r h by simp
qed

text \<open>
  Claim C10. \<open>DisplayItem\<close> is periodic in its index: for every integer \<open>i\<close>, every
  integer \<open>k\<close> and every gallery, \<open>showAt\<close> at \<open>i\<close> and at \<open>i + k * n\<close>, with \<open>n\<close> the
  number of links, return the same result from the same state: the same state with the same
  \<open>activeIndex\<close>, media and caption, or the same error.
\<close>

theorem display_item_periodic:
  "showAt (i + k * int (length (galleryLinks s))) s = showAt i s"
proof (cases "galleryLinks s = []")
  case True
  then show ?thesis by (simp add: showAt_empty)
next
  case False
  then show ?thesis by (simp add: showAt_nonempty)
qed

end
